theory Spec2Isabelle
  imports Main "HOL-Library.Word" "HOL-Library.Sublist"
begin

section \<open>Errors, durations and containers\<close>

text \<open>
  A Go \<open>error\<close> value: its message and whether \<open>errdefs.IsNotFound\<close> holds of it.
  A nil error is \<open>None\<close> of \<open>error option\<close>.
\<close>

datatype error = Error (is_not_found: bool) (message: string)

definition IsNotFound :: "error \<Rightarrow> bool" where
  "IsNotFound e = is_not_found e"

text \<open>\<open>fmt.Errorf\<close> with a \<open>%s\<close> verb only: a fresh error that wraps nothing.\<close>

definition Errorf :: "string \<Rightarrow> error" where
  "Errorf m = Error False m"

text \<open>\<open>time.Duration\<close> is an \<open>int64\<close> count of nanoseconds; \<open>time.Second\<close> is \<open>1e9\<close>.\<close>

type_synonym duration = "64 word"

definition Second :: duration where
  "Second = 1000000000"

datatype status = Created | Running | Paused | Stopped | Unknown

record container =
  ID :: string
  Name :: "string option"
  Status :: status

text \<open>
  \<open>containerwalker.Found\<close>, with the fields that \<open>stopAction\<close> reads.
\<close>

record Found =
  Container :: container
  Req :: string
  MatchCount :: int

section \<open>The world of one stop command\<close>

text \<open>
  The state threaded through \<open>stopAction\<close>: the runtime (of any type \<open>'r\<close>), the
  strings handed to \<open>cmd.OutOrStdout()\<close> and to \<open>cmd.ErrOrStderr()\<close> in order,
  and the calls made to \<open>containerutil.Stop\<close> in order, each with the container
  and the timeout pointer it was given (\<open>None\<close> is the nil pointer).
\<close>

record 'r world =
  runtime :: 'r
  stdout :: "string list"
  stderr :: "string list"
  stop_calls :: "(container \<times> duration option) list"

text \<open>
  The collaborators of \<open>stopAction\<close> that live outside \<open>stop.go\<close> are parameters:
  the runtime's listing of its containers, \<open>containerutil.Stop\<close> (its error and
  its effect on the runtime), and whether a write to stdout fails, given what was
  written before and the string to write.
\<close>

record 'r collaborators =
  list_entities :: "'r \<Rightarrow> error + container list"
  Stop :: "'r \<Rightarrow> container \<Rightarrow> duration option \<Rightarrow> error option \<times> 'r"
  stdout_write :: "string list \<Rightarrow> string \<Rightarrow> error option"

section \<open>Resolution of a request\<close>

text \<open>
  Modelled from the spec: \<open>containerwalker.ContainerWalker.Walk\<close> is not part of the
  sources at hand. The matching rule is the one of the specification's EntityResolver:
  an entity matches a request that equals its full ID, or is a non-empty prefix of its
  full ID, or equals its assigned name; a full-length match of an ID takes priority over
  the other matches.
\<close>

definition entity_matches :: "string \<Rightarrow> container \<Rightarrow> bool" where
  "entity_matches r e \<longleftrightarrow>
     r = ID e \<or> (r \<noteq> [] \<and> take (length r) (ID e) = r) \<or> Name e = Some r"

definition matching :: "container list \<Rightarrow> string \<Rightarrow> container list" where
  "matching E r =
     (let full = filter (\<lambda>e. ID e = r) E
      in if full \<noteq> [] then full else filter (entity_matches r) E)"

datatype ResolutionResult =
  NotFound
  | Resolved container string
  | Ambiguous nat string

text \<open>
  Modelled from the spec: \<open>Resolve(request) -> ResolutionResult\<close>, the outcome of
  matching a request against the current entity set.
\<close>

definition Resolve :: "container list \<Rightarrow> string \<Rightarrow> ResolutionResult" where
  "Resolve E r =
     (case matching E r of
        [] \<Rightarrow> NotFound
      | [e] \<Rightarrow> Resolved e r
      | e # e' # es \<Rightarrow> Ambiguous (length (e # e' # es)) r)"

text \<open>
  Modelled from the spec: \<open>Walk\<close>, as \<open>stopAction\<close> uses it. It lists the runtime's
  entities, calls \<open>OnFound\<close> on every match in turn with the request and the number of
  matches, stops at the first error that \<open>OnFound\<close> returns, and otherwise returns the
  number of matches.
\<close>

fun walk_matches ::
  "('w \<Rightarrow> Found \<Rightarrow> error option \<times> 'w) \<Rightarrow> string \<Rightarrow> int \<Rightarrow> container list \<Rightarrow> 'w
     \<Rightarrow> (error + int) \<times> 'w" where
  "walk_matches f req n [] w = (Inr n, w)"
| "walk_matches f req n (c # cs) w =
     (case f w \<lparr>Container = c, Req = req, MatchCount = n\<rparr> of
        (Some e, w') \<Rightarrow> (Inl e, w')
      | (None, w') \<Rightarrow> walk_matches f req n cs w')"

definition Walk ::
  "'r collaborators \<Rightarrow> ('r world \<Rightarrow> Found \<Rightarrow> error option \<times> 'r world) \<Rightarrow> 'r world \<Rightarrow> string
     \<Rightarrow> (error + int) \<times> 'r world" where
  "Walk env f w req =
     (case list_entities env (runtime w) of
        Inl e \<Rightarrow> (Inl e, w)
      | Inr E \<Rightarrow> walk_matches f req (int (length (matching E req))) (matching E req) w)"

section \<open>The stop command\<close>

text \<open>
  What \<open>stopAction\<close> reads from the cobra command: the result of
  \<open>processRootCmdFlags\<close>, whether the flag \<open>time\<close> was set on the command line, what
  \<open>GetInt("time")\<close> returns (Go's \<open>int\<close>, taken as 64 bits wide), and the error of
  \<open>clientutil.NewClient\<close>, if any.
\<close>

record command =
  processRootCmdFlags :: "error option"
  Changed_time :: bool
  GetInt_time :: "error + 64 word"
  NewClient :: "error option"

text \<open>
  Lines 53 to 61 of \<open>stop.go\<close>: the timeout pointer stays nil unless the flag was
  set; the product with \<open>time.Second\<close> is an \<open>int64\<close> product.
\<close>

definition stop_timeout :: "command \<Rightarrow> error + duration option" where
  "stop_timeout cmd =
     (if Changed_time cmd then
        (case GetInt_time cmd of
           Inl e \<Rightarrow> Inl e
         | Inr timeValue \<Rightarrow> Inr (Some (timeValue * Second)))
      else Inr None)"

definition newline :: string where
  "newline = [CHR 0x0A]"

text \<open>The \<open>OnFound\<close> closure of \<open>stopAction\<close>, lines 70 to 83.\<close>

definition OnFound ::
  "'r collaborators \<Rightarrow> duration option \<Rightarrow> 'r world \<Rightarrow> Found \<Rightarrow> error option \<times> 'r world" where
  "OnFound env timeout w found =
     (if MatchCount found > 1 then
        (Some (Errorf (''multiple IDs found with provided prefix: '' @ Req found)), w)
      else
        (case Stop env (runtime w) (Container found) timeout of
           (Some err, r') \<Rightarrow>
             (let w' = w\<lparr>runtime := r',
                         stop_calls := stop_calls w @ [(Container found, timeout)]\<rparr>
              in if IsNotFound err then
                   (None, w'\<lparr>stderr := stderr w' @ [''No such container: '' @ Req found @ newline]\<rparr>)
                 else (Some err, w'))
         | (None, r') \<Rightarrow>
             (let w' = w\<lparr>runtime := r',
                         stop_calls := stop_calls w @ [(Container found, timeout)]\<rparr>
              in (stdout_write env (stdout w') (Req found @ newline),
                  w'\<lparr>stdout := stdout w' @ [Req found @ newline]\<rparr>))))"

text \<open>The loop over the arguments, lines 85 to 93.\<close>

fun stop_loop ::
  "'r collaborators \<Rightarrow> duration option \<Rightarrow> 'r world \<Rightarrow> string list \<Rightarrow> error option \<times> 'r world" where
  "stop_loop env timeout w [] = (None, w)"
| "stop_loop env timeout w (req # args) =
     (case Walk env (OnFound env timeout) w req of
        (Inl err, w') \<Rightarrow> (Some err, w')
      | (Inr n, w') \<Rightarrow>
          if n = 0 then (Some (Errorf (''no such container '' @ req)), w')
          else stop_loop env timeout w' args)"

definition stopAction ::
  "'r collaborators \<Rightarrow> command \<Rightarrow> 'r world \<Rightarrow> string list \<Rightarrow> error option \<times> 'r world" where
  "stopAction env cmd w args =
     (case processRootCmdFlags cmd of
        Some err \<Rightarrow> (Some err, w)
      | None \<Rightarrow>
          (case stop_timeout cmd of
             Inl err \<Rightarrow> (Some err, w)
           | Inr timeout \<Rightarrow>
               (case NewClient cmd of
                  Some err \<Rightarrow> (Some err, w)
                | None \<Rightarrow> stop_loop env timeout w args)))"

text \<open>
  The calls to \<open>containerutil.Stop\<close> that a run adds to those the world held before.
\<close>

definition new_stop_calls :: "'r world \<Rightarrow> 'r world \<Rightarrow> (container \<times> duration option) list" where
  "new_stop_calls w w' = drop (length (stop_calls w)) (stop_calls w')"

section \<open>A small runtime for concrete runs\<close>

text \<open>
  Three containers whose IDs share the prefix \<open>ab\<close>, and a runtime that is the list
  of its live containers: listing never fails, stopping a live container removes it,
  stopping one that is no longer there is a not-found error, and writes to stdout
  succeed.
\<close>

definition ex_abc :: container where
  "ex_abc = \<lparr>ID = ''abc'', Name = Some ''web'', Status = Running\<rparr>"

definition ex_abd :: container where
  "ex_abd = \<lparr>ID = ''abd'', Name = None, Status = Running\<rparr>"

definition ex_abe :: container where
  "ex_abe = \<lparr>ID = ''abe'', Name = None, Status = Paused\<rparr>"

definition ex_env :: "container list collaborators" where
  "ex_env =
     \<lparr>list_entities = (\<lambda>r. Inr r),
      Stop = (\<lambda>r c t. if c \<in> set r then (None, removeAll c r)
                        else (Some (Error True ''container not found''), r)),
      stdout_write = (\<lambda>_ _. None)\<rparr>"

text \<open>
  A runtime that still lists the container \<open>abc\<close> but from which it has vanished by
  the time it is stopped.
\<close>

definition ex_racy_env :: "container list collaborators" where
  "ex_racy_env =
     \<lparr>list_entities = (\<lambda>r. Inr r),
      Stop = (\<lambda>r c t. if c \<in> set r \<and> ID c \<noteq> ''abc'' then (None, removeAll c r)
                        else (Some (Error True ''container not found''), removeAll c r)),
      stdout_write = (\<lambda>_ _. None)\<rparr>"

definition ex_cmd :: command where
  "ex_cmd =
     \<lparr>processRootCmdFlags = None, Changed_time = False, GetInt_time = Inr 10,
      NewClient = None\<rparr>"

definition ex_cmd_time :: command where
  "ex_cmd_time =
     \<lparr>processRootCmdFlags = None, Changed_time = True, GetInt_time = Inr 5,
      NewClient = None\<rparr>"

definition ex_world :: "container list \<Rightarrow> container list world" where
  "ex_world E = \<lparr>runtime = E, stdout = [], stderr = [], stop_calls = []\<rparr>"

section \<open>The transfer gate\<close>

text \<open>
  Modelled from the spec: the push and pull commands, the trust backends and the
  registry client are not part of the sources at hand (only their tests and the
  notation guide are). The definitions of this section follow the specification's
  TrustPolicyDocument, TrustBackend and TransferGate.
\<close>

record image_ref =
  registry :: string
  repository :: string
  tag :: string

type_synonym digest = string
type_synonym content = string
type_synonym attestation = string

text \<open>
  A signing or verification directive: the name of the backend (\<open>--sign=<backend>\<close>,
  \<open>--verify=<backend>\<close>) and its key or identity parameters.
\<close>

record directive =
  backend :: string
  backend_config :: string

datatype verification_level = Strict | Permissive | Skip

record trust_policy =
  policy_name :: string
  registryScopes :: "string list"
  level :: verification_level
  trustStores :: "string list"
  trustedIdentities :: "string list"

record TrustPolicyDocument =
  version :: string
  trustPolicies :: "trust_policy list"

text \<open>
  Modelled from the spec: a scope pattern is a glob over registry and repository, either
  matches-all or exact.
\<close>

definition scope_of :: "image_ref \<Rightarrow> string" where
  "scope_of r = registry r @ ''/'' @ repository r"

definition scope_matches :: "string \<Rightarrow> image_ref \<Rightarrow> bool" where
  "scope_matches pat r \<longleftrightarrow> pat = ''*'' \<or> pat = scope_of r"

text \<open>
  Modelled from the spec: policies are evaluated in document order and the first one
  with a matching scope governs.
\<close>

definition resolve_policy :: "TrustPolicyDocument \<Rightarrow> image_ref \<Rightarrow> trust_policy option" where
  "resolve_policy doc r =
     find (\<lambda>p. list_ex (\<lambda>pat. scope_matches pat r) (registryScopes p)) (trustPolicies doc)"

datatype verify_outcome = Verified | Unverified string | VerifyError string

datatype gate_error =
  AttestationToolError string
  | TrustDenied string
  | PolicyNotFound

text \<open>
  Modelled from the spec: the collaborators of the gate. The registry client gives
  \<open>push(imageRef, content) -> digest\<close> and \<open>pull(imageRef) -> content\<close>; a trust
  backend gives \<open>Sign\<close>, which returns an attestation or a sign error, and \<open>Verify\<close>,
  which returns verified, unverified with a reason, or an error.
\<close>

record trust_env =
  registry_push :: "image_ref \<Rightarrow> content \<Rightarrow> digest"
  registry_pull :: "image_ref \<Rightarrow> content"
  Sign :: "directive \<Rightarrow> digest \<Rightarrow> string + attestation"
  Verify :: "directive \<Rightarrow> image_ref \<Rightarrow> trust_policy \<Rightarrow> verify_outcome"

datatype event =
  Pushed image_ref digest
  | SignStarted directive digest
  | Published digest
  | PolicyEvaluated image_ref
  | VerifyStarted directive image_ref
  | Materialized image_ref

text \<open>
  What the gate has done: the registry content its pushes made addressable by digest,
  the attestations it published, the images it made available locally, and the steps it
  took, in order.
\<close>

record gate_state =
  pushed :: "(image_ref \<times> digest) list"
  published :: "(digest \<times> attestation) list"
  local_images :: "image_ref \<rightharpoonup> content"
  trace :: "event list"

text \<open>
  Modelled from the spec: the push path. The image is pushed first; if signing was
  requested, \<open>Sign\<close> is then invoked against the resulting digest and the attestation
  is published for that digest. A failed signing fails the push and leaves the pushed
  content in place.
\<close>

definition push ::
  "trust_env \<Rightarrow> gate_state \<Rightarrow> image_ref \<Rightarrow> content \<Rightarrow> directive option
     \<Rightarrow> (gate_error + digest) \<times> gate_state" where
  "push env gs r c sign =
     (let d = registry_push env r c;
          gs1 = gs\<lparr>pushed := pushed gs @ [(r, d)], trace := trace gs @ [Pushed r d]\<rparr>
      in case sign of
           None \<Rightarrow> (Inr d, gs1)
         | Some b \<Rightarrow>
             (let gs2 = gs1\<lparr>trace := trace gs1 @ [SignStarted b d]\<rparr>
              in case Sign env b d of
                   Inl diag \<Rightarrow> (Inl (AttestationToolError diag), gs2)
                 | Inr att \<Rightarrow>
                     (Inr d, gs2\<lparr>published := published gs2 @ [(d, att)],
                                trace := trace gs2 @ [Published d]\<rparr>)))"

text \<open>Modelled from the spec: the pulled content is materialized locally.\<close>

definition materialize :: "trust_env \<Rightarrow> gate_state \<Rightarrow> image_ref \<Rightarrow> (gate_error + content) \<times> gate_state" where
  "materialize env gs r =
     (let c = registry_pull env r
      in (Inr c, gs\<lparr>local_images := (local_images gs)(r \<mapsto> c),
                   trace := trace gs @ [Materialized r]\<rparr>))"

text \<open>
  Modelled from the spec: the pull path. Without a verification directive the gate
  bypasses policy evaluation. With one, it resolves the policy for the image's scope
  (none matching is fail-closed), verifies, and materializes only after verification
  succeeded.
\<close>

definition pull ::
  "trust_env \<Rightarrow> TrustPolicyDocument \<Rightarrow> gate_state \<Rightarrow> image_ref \<Rightarrow> directive option
     \<Rightarrow> (gate_error + content) \<times> gate_state" where
  "pull env doc gs r verify =
     (case verify of
        None \<Rightarrow> materialize env gs r
      | Some b \<Rightarrow>
          (let gs1 = gs\<lparr>trace := trace gs @ [PolicyEvaluated r]\<rparr>
           in case resolve_policy doc r of
                None \<Rightarrow> (Inl PolicyNotFound, gs1)
              | Some p \<Rightarrow>
                  (let gs2 = gs1\<lparr>trace := trace gs1 @ [VerifyStarted b r]\<rparr>
                   in case Verify env b r p of
                        Verified \<Rightarrow> materialize env gs2 r
                      | Unverified reason \<Rightarrow> (Inl (TrustDenied reason), gs2)
                      | VerifyError diag \<Rightarrow> (Inl (AttestationToolError diag), gs2))))"

text \<open>Whether the verification of a pull returns a positive result.\<close>

definition verification_positive ::
  "trust_env \<Rightarrow> TrustPolicyDocument \<Rightarrow> directive \<Rightarrow> image_ref \<Rightarrow> bool" where
  "verification_positive env doc b r =
     (case resolve_policy doc r of
        None \<Rightarrow> False
      | Some p \<Rightarrow> Verify env b r p = Verified)"

text \<open>A sequence of transfers through the gate.\<close>

datatype transfer =
  Push image_ref content "directive option"
  | Pull image_ref "directive option"

fun run_transfer :: "trust_env \<Rightarrow> TrustPolicyDocument \<Rightarrow> gate_state \<Rightarrow> transfer \<Rightarrow> gate_state" where
  "run_transfer env doc gs (Push r c sign) = snd (push env gs r c sign)"
| "run_transfer env doc gs (Pull r verify) = snd (pull env doc gs r verify)"

fun run_transfers ::
  "trust_env \<Rightarrow> TrustPolicyDocument \<Rightarrow> gate_state \<Rightarrow> transfer list \<Rightarrow> gate_state" where
  "run_transfers env doc gs [] = gs"
| "run_transfers env doc gs (x # xs) = run_transfers env doc (run_transfer env doc gs x) xs"

text \<open>
  A trace is well ordered when every signing step comes after a push that produced the
  digest it signs: \<open>seen\<close> holds the digests pushed so far.
\<close>

fun signs_follow_pushes :: "digest set \<Rightarrow> event list \<Rightarrow> bool" where
  "signs_follow_pushes seen [] = True"
| "signs_follow_pushes seen (Pushed r d # es) = signs_follow_pushes (insert d seen) es"
| "signs_follow_pushes seen (SignStarted b d # es) =
     (d \<in> seen \<and> signs_follow_pushes seen es)"
| "signs_follow_pushes seen (e # es) = signs_follow_pushes seen es"

fun pushed_digests :: "event list \<Rightarrow> digest set" where
  "pushed_digests [] = {}"
| "pushed_digests (Pushed r d # es) = insert d (pushed_digests es)"
| "pushed_digests (e # es) = pushed_digests es"

definition gate_init :: gate_state where
  "gate_init = \<lparr>pushed = [], published = [], local_images = Map.empty, trace = []\<rparr>"

fun is_verification_event :: "event \<Rightarrow> bool" where
  "is_verification_event (PolicyEvaluated r) = True"
| "is_verification_event (VerifyStarted b r) = True"
| "is_verification_event e = False"

fun requests_verification :: "transfer \<Rightarrow> bool" where
  "requests_verification (Pull r (Some b)) = True"
| "requests_verification x = False"

section \<open>The termination controller\<close>

text \<open>
  Modelled from the spec: \<open>containerutil.Stop\<close> is not part of the sources at hand.
  The definitions of this section follow the state machine of the specification's
  TerminationController. Time is counted in units of the escalation timer.
\<close>

datatype phase = Requested | SignalSent | AwaitingExit | Escalated | Terminated | Failed

datatype signal = Graceful | Forceful

record TerminationSpec =
  target :: container
  escalation_timeout :: "nat option"

text \<open>
  What the runtime does during one stop: whether the entity is already terminal when
  the stop is requested, its reply to each of the two signals (accepted, entity not
  found, or another error), and what the controller observes while it waits, in order:
  a unit of time passes with the entity still non-terminal, the entity reaches a
  terminal status, the entity disappears, or the runtime fails.
\<close>

datatype reply = Accepted | Gone | Fault string

datatype observation = Tick | Exit | Lost | Broken string

record stop_run =
  terminal_at_request :: bool
  graceful_reply :: reply
  forceful_reply :: reply
  observations :: "observation list"

text \<open>
  The controller: its state, the time since the escalation timer began, the signals it
  issued with the time of each, the states it went through, and the result of \<open>Stop\<close>
  once it has returned (\<open>Some None\<close> is success, \<open>Some (Some e)\<close> a stop error).
\<close>

record controller =
  phase :: phase
  elapsed :: nat
  issued :: "(signal \<times> nat) list"
  visited :: "phase list"
  result :: "string option option"

definition enter :: "phase \<Rightarrow> controller \<Rightarrow> controller" where
  "enter p c = c\<lparr>phase := p, visited := visited c @ [p]\<rparr>"

definition finish :: "phase \<Rightarrow> string option \<Rightarrow> controller \<Rightarrow> controller" where
  "finish p r c = (enter p c)\<lparr>result := Some r\<rparr>"

text \<open>
  Modelled from the spec: Escalated to Terminated once the forceful signal takes
  effect; an entity that disappears is reported as success, any other runtime error is
  surfaced.
\<close>

fun after_force :: "controller \<Rightarrow> observation list \<Rightarrow> controller" where
  "after_force c [] = c"
| "after_force c (Tick # os) = after_force (c\<lparr>elapsed := elapsed c + 1\<rparr>) os"
| "after_force c (Exit # os) = finish Terminated None c"
| "after_force c (Lost # os) = finish Failed None c"
| "after_force c (Broken e # os) = finish Failed (Some e) c"

text \<open>
  Modelled from the spec: AwaitingExit to Escalated when the timer elapses with the
  entity still non-terminal; the controller issues a forceful termination signal.
\<close>

definition escalate :: "stop_run \<Rightarrow> controller \<Rightarrow> observation list \<Rightarrow> controller" where
  "escalate run c os =
     (let c1 = (enter Escalated c)\<lparr>issued := issued c @ [(Forceful, elapsed c)]\<rparr>
      in case forceful_reply run of
           Accepted \<Rightarrow> after_force c1 os
         | Gone \<Rightarrow> finish Failed None c1
         | Fault e \<Rightarrow> finish Failed (Some e) c1)"

text \<open>
  Modelled from the spec: AwaitingExit. The entity reaching a terminal status before
  the timer elapses ends the stop; otherwise the timer runs on.
\<close>

fun await :: "nat \<Rightarrow> stop_run \<Rightarrow> controller \<Rightarrow> observation list \<Rightarrow> controller" where
  "await T run c [] = (if T \<le> elapsed c then escalate run c [] else c)"
| "await T run c (ob # os) =
     (if T \<le> elapsed c then escalate run c (ob # os)
      else (case ob of
              Tick \<Rightarrow> await T run (c\<lparr>elapsed := elapsed c + 1\<rparr>) os
            | Exit \<Rightarrow> finish Terminated None c
            | Lost \<Rightarrow> finish Failed None c
            | Broken e \<Rightarrow> finish Failed (Some e) c))"

definition effective_timeout :: "nat \<Rightarrow> TerminationSpec \<Rightarrow> nat" where
  "effective_timeout default_timeout spec =
     (case escalation_timeout spec of None \<Rightarrow> default_timeout | Some t \<Rightarrow> t)"

text \<open>
  Modelled from the spec: \<open>Stop(entity, spec)\<close>. A stop of an already terminal
  entity succeeds without a signal. Otherwise the controller issues the graceful signal
  at once (Requested to SignalSent), begins the escalation timer with the timeout of the
  spec, or the default when it has none (SignalSent to AwaitingExit), and waits.
\<close>

definition controller_Stop :: "nat \<Rightarrow> TerminationSpec \<Rightarrow> stop_run \<Rightarrow> controller" where
  "controller_Stop default_timeout spec run =
     (let c0 = \<lparr>phase = Requested, elapsed = 0, issued = [], visited = [Requested],
                result = None\<rparr>
      in if terminal_at_request run then finish Terminated None c0
         else
           (let c1 = (enter SignalSent c0)\<lparr>issued := [(Graceful, 0)]\<rparr>
            in case graceful_reply run of
                 Accepted \<Rightarrow>
                   await (effective_timeout default_timeout spec) run (enter AwaitingExit c1)
                     (observations run)
               | Gone \<Rightarrow> finish Failed None c1
               | Fault e \<Rightarrow> finish Failed (Some e) c1))"

definition forceful_signals :: "controller \<Rightarrow> (signal \<times> nat) list" where
  "forceful_signals c = filter (\<lambda>s. fst s = Forceful) (issued c)"

section \<open>A small registry and a small stop for concrete runs\<close>

text \<open>
  One image, a trust policy document with one strict policy whose scope matches all
  registries, a registry whose digest is computed from the content, a backend that signs
  with the key \<open>cosign.key\<close> only and verifies with the key \<open>cosign.pub\<close> only.
\<close>

definition ex_image :: image_ref where
  "ex_image = \<lparr>registry = ''127.0.0.1:5000'', repository = ''hello-world'', tag = ''latest''\<rparr>"

definition ex_doc :: TrustPolicyDocument where
  "ex_doc =
     \<lparr>version = ''1.0'',
      trustPolicies =
        [\<lparr>policy_name = ''test-images'', registryScopes = [''*''], level = Strict,
          trustStores = [''ca:test.io''], trustedIdentities = [''*'']\<rparr>]\<rparr>"

definition ex_trust_env :: trust_env where
  "ex_trust_env =
     \<lparr>registry_push = (\<lambda>r c. ''sha256:'' @ c),
      registry_pull = (\<lambda>r. ''layers''),
      Sign = (\<lambda>b d. if backend_config b = ''cosign.key'' then Inr (''sig:'' @ d)
                      else Inl ''signing failed''),
      Verify = (\<lambda>b r p. if backend_config b = ''cosign.pub'' then Verified
                          else Unverified ''no matching signatures'')\<rparr>"

definition ex_sign_key :: directive where
  "ex_sign_key = \<lparr>backend = ''cosign'', backend_config = ''cosign.key''\<rparr>"

definition ex_sign_bad :: directive where
  "ex_sign_bad = \<lparr>backend = ''cosign'', backend_config = ''missing.key''\<rparr>"

definition ex_verify_key :: directive where
  "ex_verify_key = \<lparr>backend = ''cosign'', backend_config = ''cosign.pub''\<rparr>"

definition ex_verify_other :: directive where
  "ex_verify_other = \<lparr>backend = ''cosign'', backend_config = ''other.pub''\<rparr>"

text \<open>
  A stop with a timeout of two units in which the entity is still running after three.
\<close>

definition ex_spec :: TerminationSpec where
  "ex_spec = \<lparr>target = ex_abc, escalation_timeout = Some 2\<rparr>"

definition ex_slow_exit :: stop_run where
  "ex_slow_exit =
     \<lparr>terminal_at_request = False, graceful_reply = Accepted, forceful_reply = Accepted,
      observations = [Tick, Tick, Tick, Exit]\<rparr>"

lemmas ex_defs =
  ex_abc_def ex_abd_def ex_env_def ex_cmd_def ex_world_def matching_def
  entity_matches_def stopAction_def stop_timeout_def Walk_def OnFound_def Errorf_def
  IsNotFound_def newline_def

section \<open>How the loop and the walk compose\<close>

lemma stop_loop_append:
  "stop_loop env t w (pre @ rest) =
     (case stop_loop env t w pre of
        (Some e, w') \<Rightarrow> (Some e, w')
      | (None, w') \<Rightarrow> stop_loop env t w' rest)"
  by (induction pre arbitrary: w) (auto split: prod.splits sum.splits option.splits)

lemma stopAction_ok:
  "stopAction env cmd w args = (None, w1) \<Longrightarrow>
   \<exists>t. stop_timeout cmd = Inr t \<and> stop_loop env t w args = (None, w1) \<and>
       (\<forall>args'. stopAction env cmd w args' = stop_loop env t w args')"
  by (auto simp: stopAction_def split: option.splits sum.splits)

lemma walk_matches_ambiguous:
  "1 < n \<Longrightarrow> ms \<noteq> [] \<Longrightarrow>
   walk_matches (OnFound env t) req n ms w =
     (Inl (Errorf (''multiple IDs found with provided prefix: '' @ req)), w)"
  by (cases ms) (simp_all add: OnFound_def)

lemma Walk_ambiguous:
  assumes "list_entities env (runtime w) = Inr E"
    and "1 < length (matching E req)"
  shows "Walk env (OnFound env t) w req =
     (Inl (Errorf (''multiple IDs found with provided prefix: '' @ req)), w)"
proof -
  from assms(2) have "matching E req \<noteq> []" and "1 < int (length (matching E req))"
    by auto
  then show ?thesis
    using assms(1) by (simp add: Walk_def walk_matches_ambiguous)
qed

lemma Walk_no_match:
  "list_entities env (runtime w) = Inr E \<Longrightarrow> matching E req = [] \<Longrightarrow>
   Walk env f w req = (Inr 0, w)"
  by (simp add: Walk_def)

lemma Walk_single:
  "list_entities env (runtime w) = Inr E \<Longrightarrow> matching E req = [c] \<Longrightarrow>
   Walk env f w req =
     (case f w \<lparr>Container = c, Req = req, MatchCount = 1\<rparr> of
        (Some e, w') \<Rightarrow> (Inl e, w')
      | (None, w') \<Rightarrow> (Inr 1, w'))"
  by (simp add: Walk_def split: prod.splits option.splits)

lemma OnFound_vanished:
  "MatchCount found \<le> 1 \<Longrightarrow>
   Stop env (runtime w) (Container found) t = (Some err, r') \<Longrightarrow> IsNotFound err \<Longrightarrow>
   OnFound env t w found =
     (None, w\<lparr>runtime := r',
               stop_calls := stop_calls w @ [(Container found, t)],
               stderr := stderr w @ [''No such container: '' @ Req found @ newline]\<rparr>)"
  by (simp add: OnFound_def)

lemma OnFound_stopped:
  "MatchCount found \<le> 1 \<Longrightarrow>
   Stop env (runtime w) (Container found) t = (None, r') \<Longrightarrow>
   OnFound env t w found =
     (stdout_write env (stdout w) (Req found @ newline),
      w\<lparr>runtime := r',
        stop_calls := stop_calls w @ [(Container found, t)],
        stdout := stdout w @ [Req found @ newline]\<rparr>)"
  by (simp add: OnFound_def)

section \<open>Resolution and ambiguous requests\<close>

text \<open>
  C1. For every entity set and every request, resolution is exactly one of: not found
  (no entity matches), resolved to the one entity that matches (an entity of the set),
  or ambiguous with the number of matches, which is at least 2. And when a request of a
  stop command matches more than one container, after the arguments before it went
  through, the command returns an error for that request and the world is the one the
  earlier arguments left: no call to \<open>containerutil.Stop\<close> is made for any of the
  matches.
\<close>

theorem resolve_outcomes_and_ambiguous_stop:
  "(case Resolve E req of
      NotFound \<Rightarrow> matching E req = []
    | Resolved e q \<Rightarrow> q = req \<and> matching E req = [e] \<and> e \<in> set E
    | Ambiguous n q \<Rightarrow> q = req \<and> 2 \<le> n \<and> n = length (matching E req))
   \<and> (stopAction env cmd w pre = (None, w1) \<longrightarrow>
        list_entities env (runtime w1) = Inr E \<longrightarrow>
        1 < length (matching E req) \<longrightarrow>
          stopAction env cmd w (pre @ req # rest) =
            (Some (Errorf (''multiple IDs found with provided prefix: '' @ req)), w1)
          \<and> stop_calls (snd (stopAction env cmd w (pre @ req # rest))) = stop_calls w1)"
proof (intro conjI impI)
  have sub: "set (matching E req) \<subseteq> set E"
    by (auto simp: matching_def Let_def)
  show "case Resolve E req of
      NotFound \<Rightarrow> matching E req = []
    | Resolved e q \<Rightarrow> q = req \<and> matching E req = [e] \<and> e \<in> set E
    | Ambiguous n q \<Rightarrow> q = req \<and> 2 \<le> n \<and> n = length (matching E req)"
    using sub by (auto simp: Resolve_def split: list.splits)
next
  assume ok: "stopAction env cmd w pre = (None, w1)"
    and E: "list_entities env (runtime w1) = Inr E"
    and many: "1 < length (matching E req)"
  from stopAction_ok [OF ok] obtain t where
    t: "stop_loop env t w pre = (None, w1)"
    and all: "\<And>args'. stopAction env cmd w args' = stop_loop env t w args'"
    by blast
  show r: "stopAction env cmd w (pre @ req # rest) =
      (Some (Errorf (''multiple IDs found with provided prefix: '' @ req)), w1)"
    by (simp only: all stop_loop_append t prod.case option.case stop_loop.simps
          Walk_ambiguous [OF E many] sum.case)
  show "stop_calls (snd (stopAction env cmd w (pre @ req # rest))) = stop_calls w1"
    by (simp only: r snd_conv)
qed

text \<open>
  The theorem at a run: \<open>web\<close> names \<open>abc\<close>, which is stopped; then \<open>ab\<close> is a
  prefix of the two IDs left, and the command fails with only the first stop made.
\<close>

theorem resolve_outcomes_and_ambiguous_stop_witness:
  "stopAction ex_env ex_cmd (ex_world [ex_abc, ex_abd, ex_abe]) [''web''] =
     (None, \<lparr>runtime = [ex_abd, ex_abe], stdout = [''web'' @ newline], stderr = [],
             stop_calls = [(ex_abc, None)]\<rparr>)
   \<and> 1 < length (matching [ex_abd, ex_abe] ''ab'')
   \<and> Resolve [ex_abd, ex_abe] ''ab'' = Ambiguous 2 ''ab''
   \<and> stopAction ex_env ex_cmd (ex_world [ex_abc, ex_abd, ex_abe])
        ([''web''] @ ''ab'' # [''abe'']) =
       (Some (Errorf (''multiple IDs found with provided prefix: '' @ ''ab'')),
        \<lparr>runtime = [ex_abd, ex_abe], stdout = [''web'' @ newline], stderr = [],
         stop_calls = [(ex_abc, None)]\<rparr>)"
proof -
  let ?w1 = "\<lparr>runtime = [ex_abd, ex_abe], stdout = [''web'' @ newline], stderr = [],
             stop_calls = [(ex_abc, None)]\<rparr>"
  have h1: "stopAction ex_env ex_cmd (ex_world [ex_abc, ex_abd, ex_abe]) [''web''] = (None, ?w1)"
    by (simp add: ex_defs ex_abe_def)
  have h2: "list_entities ex_env (runtime ?w1) = Inr [ex_abd, ex_abe]"
    by (simp add: ex_env_def)
  have h3: "1 < length (matching [ex_abd, ex_abe] ''ab'')"
    by (simp add: ex_defs ex_abe_def)
  have h4: "Resolve [ex_abd, ex_abe] ''ab'' = Ambiguous 2 ''ab''"
    by (simp add: Resolve_def ex_defs ex_abe_def)
  from resolve_outcomes_and_ambiguous_stop
    [where E = "[ex_abd, ex_abe]" and req = "''ab''" and env = ex_env and cmd = ex_cmd
       and w = "ex_world [ex_abc, ex_abd, ex_abe]" and pre = "[''web'']" and ?w1.0 = ?w1
       and rest = "[''abe'']"]
    h1 h2 h3 h4
  show ?thesis by blast
qed

section \<open>The error for an ambiguous request\<close>

text \<open>
  C2, as stated, at a run: the request \<open>ab\<close> matches two containers in one world and
  three in another, and the error of the command is the same in both. Its message names
  the request and holds no count.
\<close>

theorem ambiguous_error_reports_count_counterexample:
  "length (matching [ex_abc, ex_abd] ''ab'') = 2 \<and>
   length (matching [ex_abc, ex_abd, ex_abe] ''ab'') = 3 \<and>
   fst (stopAction ex_env ex_cmd (ex_world [ex_abc, ex_abd]) [''ab'']) =
     Some (Error False ''multiple IDs found with provided prefix: ab'') \<and>
   fst (stopAction ex_env ex_cmd (ex_world [ex_abc, ex_abd, ex_abe]) [''ab'']) =
     Some (Error False ''multiple IDs found with provided prefix: ab'')"
  by (simp add: ex_defs ex_abe_def)

text \<open>
  C2, amended. For every stop request that matches two or more containers, after the
  arguments before it went through, the command returns an error whose message is
  \<open>multiple IDs found with provided prefix: \<close> followed by the request string: it
  names the request, not the number of matches.
\<close>

theorem ambiguous_error_names_request:
  assumes "stopAction env cmd w pre = (None, w1)"
    and "list_entities env (runtime w1) = Inr E"
    and "2 \<le> length (matching E req)"
  shows "\<exists>err. fst (stopAction env cmd w (pre @ req # rest)) = Some err \<and>
           message err = ''multiple IDs found with provided prefix: '' @ req"
proof -
  from stopAction_ok [OF assms(1)] obtain t where
    t: "stop_loop env t w pre = (None, w1)"
    and all: "\<And>args'. stopAction env cmd w args' = stop_loop env t w args'"
    by blast
  from assms(3) have many: "1 < length (matching E req)" by simp
  have "stopAction env cmd w (pre @ req # rest) =
      (Some (Errorf (''multiple IDs found with provided prefix: '' @ req)), w1)"
    by (simp only: all stop_loop_append t prod.case option.case stop_loop.simps
          Walk_ambiguous [OF assms(2) many] sum.case)
  then show ?thesis by (simp add: Errorf_def)
qed

theorem ambiguous_error_names_request_witness:
  "stopAction ex_env ex_cmd (ex_world [ex_abc, ex_abd, ex_abe]) [] =
     (None, ex_world [ex_abc, ex_abd, ex_abe])
   \<and> 2 \<le> length (matching [ex_abc, ex_abd, ex_abe] ''ab'')
   \<and> (\<exists>err. fst (stopAction ex_env ex_cmd (ex_world [ex_abc, ex_abd, ex_abe])
                   ([] @ ''ab'' # [])) = Some err \<and>
            message err = ''multiple IDs found with provided prefix: '' @ ''ab'')"
proof -
  let ?w = "ex_world [ex_abc, ex_abd, ex_abe]"
  have h1: "stopAction ex_env ex_cmd ?w [] = (None, ?w)"
    by (simp add: ex_defs ex_abe_def)
  have h2: "list_entities ex_env (runtime ?w) = Inr [ex_abc, ex_abd, ex_abe]"
    by (simp add: ex_env_def ex_world_def)
  have h3: "2 \<le> length (matching [ex_abc, ex_abd, ex_abe] ''ab'')"
    by (simp add: ex_defs ex_abe_def)
  from ambiguous_error_names_request [OF h1 h2 h3, of "[]"] h1 h3
  show ?thesis by blast
qed

section \<open>A request that matches nothing\<close>

text \<open>
  C3, as stated, at a run: with \<open>abc\<close> live, the arguments \<open>nosuch\<close> and \<open>abc\<close>
  end in the error for \<open>nosuch\<close> with the world untouched, so \<open>abc\<close> was never
  stopped, although the argument \<open>abc\<close> alone stops it.
\<close>

theorem not_found_continues_batch_counterexample:
  "stopAction ex_env ex_cmd (ex_world [ex_abc]) [''nosuch'', ''abc''] =
     (Some (Error False ''no such container nosuch''), ex_world [ex_abc]) \<and>
   stop_calls (ex_world [ex_abc]) = [] \<and>
   stopAction ex_env ex_cmd (ex_world [ex_abc]) [''abc''] =
     (None, \<lparr>runtime = [], stdout = [''abc'' @ newline], stderr = [],
             stop_calls = [(ex_abc, None)]\<rparr>)"
  by (simp add: ex_defs)

text \<open>
  C3, amended. For every stop invocation, a request with no match ends the batch: the
  arguments before it have been processed, the command returns the error
  \<open>no such container \<close> followed by the request, and the world is the one the earlier
  arguments left, so none of the remaining arguments is processed.
\<close>

theorem not_found_ends_batch:
  assumes "stopAction env cmd w pre = (None, w1)"
    and "list_entities env (runtime w1) = Inr E"
    and "matching E req = []"
  shows "stopAction env cmd w (pre @ req # rest) =
           (Some (Errorf (''no such container '' @ req)), w1)"
proof -
  from stopAction_ok [OF assms(1)] obtain t where
    t: "stop_loop env t w pre = (None, w1)"
    and all: "\<And>args'. stopAction env cmd w args' = stop_loop env t w args'"
    by blast
  show ?thesis
    by (simp only: all stop_loop_append t prod.case option.case stop_loop.simps
          Walk_no_match [OF assms(2,3)] sum.case refl if_True)
qed

theorem not_found_ends_batch_witness:
  "stopAction ex_env ex_cmd (ex_world [ex_abc, ex_abd]) [''web''] =
     (None, \<lparr>runtime = [ex_abd], stdout = [''web'' @ newline], stderr = [],
             stop_calls = [(ex_abc, None)]\<rparr>)
   \<and> matching [ex_abd] ''nosuch'' = []
   \<and> stopAction ex_env ex_cmd (ex_world [ex_abc, ex_abd]) ([''web''] @ ''nosuch'' # [''abd'']) =
       (Some (Errorf (''no such container '' @ ''nosuch'')),
        \<lparr>runtime = [ex_abd], stdout = [''web'' @ newline], stderr = [],
         stop_calls = [(ex_abc, None)]\<rparr>)"
proof -
  let ?w1 = "\<lparr>runtime = [ex_abd], stdout = [''web'' @ newline], stderr = [],
             stop_calls = [(ex_abc, None)]\<rparr>"
  have h1: "stopAction ex_env ex_cmd (ex_world [ex_abc, ex_abd]) [''web''] = (None, ?w1)"
    by (simp add: ex_defs)
  have h2: "list_entities ex_env (runtime ?w1) = Inr [ex_abd]"
    by (simp add: ex_env_def)
  have h3: "matching [ex_abd] ''nosuch'' = []"
    by (simp add: ex_defs)
  from not_found_ends_batch [OF h1 h2 h3, of "[''abd'']"] h1 h3
  show ?thesis by blast
qed

section \<open>A container that vanishes while it is stopped\<close>

text \<open>
  C4. When a request resolves to one container and \<open>containerutil.Stop\<close> then returns
  a not-found error, the operation is a success: \<open>OnFound\<close> returns nil, the walk
  returns one match and no error, and a command that ends with this request returns nil.
\<close>

theorem vanished_container_is_success:
  assumes "stopAction env cmd w pre = (None, w1)"
    and "stop_timeout cmd = Inr t"
    and "list_entities env (runtime w1) = Inr E"
    and "matching E req = [c]"
    and "Stop env (runtime w1) c t = (Some err, r')"
    and "IsNotFound err"
  shows "fst (OnFound env t w1 \<lparr>Container = c, Req = req, MatchCount = 1\<rparr>) = None \<and>
         fst (Walk env (OnFound env t) w1 req) = Inr 1 \<and>
         fst (stopAction env cmd w (pre @ [req])) = None"
proof -
  from stopAction_ok [OF assms(1)] assms(2) have
    t: "stop_loop env t w pre = (None, w1)"
    and all: "\<And>args'. stopAction env cmd w args' = stop_loop env t w args'"
    by auto
  let ?f = "\<lparr>Container = c, Req = req, MatchCount = 1\<rparr>"
  have onf: "OnFound env t w1 ?f =
     (None, w1\<lparr>runtime := r',
               stop_calls := stop_calls w1 @ [(c, t)],
               stderr := stderr w1 @ [''No such container: '' @ req @ newline]\<rparr>)"
    using OnFound_vanished [of ?f env w1 t err r'] assms(5,6) by simp
  have walk: "Walk env (OnFound env t) w1 req =
     (Inr 1, w1\<lparr>runtime := r',
               stop_calls := stop_calls w1 @ [(c, t)],
               stderr := stderr w1 @ [''No such container: '' @ req @ newline]\<rparr>)"
    by (simp only: Walk_single [OF assms(3,4)] onf prod.case option.case)
  have "fst (stopAction env cmd w (pre @ [req])) = None"
    by (simp add: all stop_loop_append t walk)
  with onf walk show ?thesis by simp
qed

theorem vanished_container_is_success_witness:
  "stopAction ex_racy_env ex_cmd (ex_world [ex_abc, ex_abd]) [''abd''] =
     (None, \<lparr>runtime = [ex_abc], stdout = [''abd'' @ newline], stderr = [],
             stop_calls = [(ex_abd, None)]\<rparr>)
   \<and> matching [ex_abc] ''web'' = [ex_abc]
   \<and> Stop ex_racy_env [ex_abc] ex_abc None = (Some (Error True ''container not found''), [])
   \<and> IsNotFound (Error True ''container not found'')
   \<and> fst (stopAction ex_racy_env ex_cmd (ex_world [ex_abc, ex_abd]) ([''abd''] @ [''web''])) = None"
proof -
  let ?w1 = "\<lparr>runtime = [ex_abc], stdout = [''abd'' @ newline], stderr = [],
             stop_calls = [(ex_abd, None)]\<rparr>"
  have h1: "stopAction ex_racy_env ex_cmd (ex_world [ex_abc, ex_abd]) [''abd''] = (None, ?w1)"
    by (simp add: ex_defs ex_racy_env_def)
  have h2: "stop_timeout ex_cmd = Inr None"
    by (simp add: ex_defs ex_racy_env_def)
  have h3: "list_entities ex_racy_env (runtime ?w1) = Inr [ex_abc]"
    by (simp add: ex_racy_env_def)
  have h4: "matching [ex_abc] ''web'' = [ex_abc]"
    by (simp add: ex_defs ex_racy_env_def)
  have h5: "Stop ex_racy_env (runtime ?w1) ex_abc None =
      (Some (Error True ''container not found''), [])"
    by (simp add: ex_defs ex_racy_env_def)
  have h6: "IsNotFound (Error True ''container not found'')"
    by (simp add: IsNotFound_def)
  from vanished_container_is_success [OF h1 h2 h3 h4 h5 h6] h1 h4 h5 h6
  show ?thesis by simp
qed

section \<open>The timeout handed to the stop operation\<close>

lemma OnFound_calls:
  "OnFound env t w found = (res, w') \<Longrightarrow>
   \<exists>new. stop_calls w' = stop_calls w @ new \<and> (\<forall>x \<in> set new. snd x = t)"
  by (auto simp: OnFound_def Let_def split: if_splits prod.splits option.splits)

lemma walk_matches_calls:
  "walk_matches (OnFound env t) req n ms w = (res, w') \<Longrightarrow>
   \<exists>new. stop_calls w' = stop_calls w @ new \<and> (\<forall>x \<in> set new. snd x = t)"
proof (induction ms arbitrary: w)
  case Nil
  then show ?case by simp
next
  case (Cons c cs)
  obtain r1 w1 where
    step: "OnFound env t w \<lparr>Container = c, Req = req, MatchCount = n\<rparr> = (r1, w1)"
    by (cases "OnFound env t w \<lparr>Container = c, Req = req, MatchCount = n\<rparr>")
  from OnFound_calls [OF step] obtain new1 where
    n1: "stop_calls w1 = stop_calls w @ new1" "\<forall>x \<in> set new1. snd x = t"
    by blast
  show ?case
  proof (cases r1)
    case None
    with Cons.prems step have "walk_matches (OnFound env t) req n cs w1 = (res, w')"
      by simp
    from Cons.IH [OF this] obtain new2 where
      "stop_calls w' = stop_calls w1 @ new2" "\<forall>x \<in> set new2. snd x = t"
      by blast
    with n1 have "stop_calls w' = stop_calls w @ (new1 @ new2) \<and>
        (\<forall>x \<in> set (new1 @ new2). snd x = t)"
      by auto
    then show ?thesis by blast
  next
    case (Some e)
    with Cons.prems step have "w' = w1" by simp
    with n1 show ?thesis by blast
  qed
qed

lemma Walk_calls:
  "Walk env (OnFound env t) w req = (res, w') \<Longrightarrow>
   \<exists>new. stop_calls w' = stop_calls w @ new \<and> (\<forall>x \<in> set new. snd x = t)"
  by (cases "list_entities env (runtime w)") (auto simp: Walk_def dest: walk_matches_calls)

lemma stop_loop_calls:
  "stop_loop env t w args = (res, w') \<Longrightarrow>
   \<exists>new. stop_calls w' = stop_calls w @ new \<and> (\<forall>x \<in> set new. snd x = t)"
proof (induction args arbitrary: w)
  case Nil
  then show ?case by simp
next
  case (Cons req args)
  obtain r1 w1 where step: "Walk env (OnFound env t) w req = (r1, w1)"
    by (cases "Walk env (OnFound env t) w req")
  from Walk_calls [OF step] obtain new1 where
    n1: "stop_calls w1 = stop_calls w @ new1" "\<forall>x \<in> set new1. snd x = t"
    by blast
  show ?case
  proof (cases "\<exists>n. r1 = Inr n \<and> n \<noteq> 0")
    case True
    with Cons.prems step have "stop_loop env t w1 args = (res, w')" by auto
    from Cons.IH [OF this] obtain new2 where
      "stop_calls w' = stop_calls w1 @ new2" "\<forall>x \<in> set new2. snd x = t"
      by blast
    with n1 have "stop_calls w' = stop_calls w @ (new1 @ new2) \<and>
        (\<forall>x \<in> set (new1 @ new2). snd x = t)"
      by auto
    then show ?thesis by blast
  next
    case False
    with Cons.prems step have "w' = w1" by (cases r1) (auto split: if_splits)
    with n1 show ?thesis by blast
  qed
qed

text \<open>
  C5. Every call of \<open>containerutil.Stop\<close> that a stop command makes is given the nil
  timeout exactly when the flag \<open>time\<close> was not set on the command line; when it was
  set, the call is given the flag's value in seconds as a duration. The calls of the
  command are those the world held before, followed by the new ones.
\<close>

theorem timeout_passed_iff_flag_set:
  "stop_calls (snd (stopAction env cmd w args)) =
     stop_calls w @ new_stop_calls w (snd (stopAction env cmd w args)) \<and>
   (\<forall>(c, t) \<in> set (new_stop_calls w (snd (stopAction env cmd w args))).
      (t = None \<longleftrightarrow> \<not> Changed_time cmd) \<and>
      (Changed_time cmd \<longrightarrow> (\<exists>v. GetInt_time cmd = Inr v \<and> t = Some (v * Second))))"
proof (cases "\<exists>t. processRootCmdFlags cmd = None \<and> stop_timeout cmd = Inr t \<and>
                  NewClient cmd = None")
  case True
  then obtain t where
    t: "processRootCmdFlags cmd = None" "stop_timeout cmd = Inr t" "NewClient cmd = None"
    by blast
  then have eq: "stopAction env cmd w args = stop_loop env t w args"
    by (simp add: stopAction_def)
  obtain res w' where r: "stop_loop env t w args = (res, w')"
    by (cases "stop_loop env t w args")
  from stop_loop_calls [OF r] obtain new where
    new: "stop_calls w' = stop_calls w @ new" "\<forall>x \<in> set new. snd x = t"
    by blast
  then have nsc: "new_stop_calls w w' = new"
    by (simp add: new_stop_calls_def)
  from t(2) have "(t = None \<longleftrightarrow> \<not> Changed_time cmd) \<and>
      (Changed_time cmd \<longrightarrow> (\<exists>v. GetInt_time cmd = Inr v \<and> t = Some (v * Second)))"
    by (auto simp: stop_timeout_def split: if_splits sum.splits)
  with new nsc show ?thesis by (auto simp: eq r)
next
  case False
  then have "snd (stopAction env cmd w args) = w"
    by (auto simp: stopAction_def split: option.splits sum.splits)
  then show ?thesis by (simp add: new_stop_calls_def)
qed

text \<open>
  The theorem at two runs: without the flag the one stop is given the nil timeout; with
  \<open>--time 5\<close> it is given five seconds.
\<close>

theorem timeout_passed_iff_flag_set_witness:
  "new_stop_calls (ex_world [ex_abc]) (snd (stopAction ex_env ex_cmd (ex_world [ex_abc]) [''abc'']))
     = [(ex_abc, None)]
   \<and> \<not> Changed_time ex_cmd
   \<and> new_stop_calls (ex_world [ex_abc])
        (snd (stopAction ex_env ex_cmd_time (ex_world [ex_abc]) [''abc'']))
     = [(ex_abc, Some 5000000000)]
   \<and> Changed_time ex_cmd_time
   \<and> (\<exists>v. GetInt_time ex_cmd_time = Inr v \<and> Some (5000000000 :: duration) = Some (v * Second))"
proof -
  have h1: "new_stop_calls (ex_world [ex_abc])
      (snd (stopAction ex_env ex_cmd (ex_world [ex_abc]) [''abc''])) = [(ex_abc, None)]"
    by (simp add: new_stop_calls_def ex_defs ex_cmd_time_def Second_def)
  have h2: "new_stop_calls (ex_world [ex_abc])
      (snd (stopAction ex_env ex_cmd_time (ex_world [ex_abc]) [''abc'']))
        = [(ex_abc, Some 5000000000)]"
    by (simp add: new_stop_calls_def ex_defs ex_cmd_time_def Second_def)
  have h3: "\<not> Changed_time ex_cmd" "Changed_time ex_cmd_time"
    by (simp_all add: ex_cmd_def ex_cmd_time_def)
  from timeout_passed_iff_flag_set
    [of ex_env ex_cmd_time "ex_world [ex_abc]" "[''abc'']"]
  have "\<forall>(c, t) \<in> set [(ex_abc, Some (5000000000 :: duration))].
          Changed_time ex_cmd_time \<longrightarrow>
            (\<exists>v. GetInt_time ex_cmd_time = Inr v \<and> t = Some (v * Second))"
    unfolding h2 by blast
  with h3 have "\<exists>v. GetInt_time ex_cmd_time = Inr v \<and>
      Some (5000000000 :: duration) = Some (v * Second)"
    by simp
  with h1 h2 h3 show ?thesis by blast
qed

section \<open>What the stop command prints\<close>

lemma OnFound_stdout:
  "OnFound env t w found = (res, w') \<Longrightarrow>
   stdout w' = stdout w \<or> stdout w' = stdout w @ [Req found @ newline]"
  by (auto simp: OnFound_def Let_def split: if_splits prod.splits option.splits)

lemma Walk_stdout:
  assumes "Walk env (OnFound env t) w req = (res, w')"
  shows "stdout w' = stdout w \<or> stdout w' = stdout w @ [req @ newline]"
proof (cases "list_entities env (runtime w)")
  case (Inl e)
  with assms show ?thesis by (simp add: Walk_def)
next
  case (Inr E)
  show ?thesis
  proof (cases "matching E req")
    case Nil
    with Inr assms show ?thesis by (simp add: Walk_def)
  next
    case (Cons c cs)
    note ms = this
    show ?thesis
    proof (cases cs)
      case Nil
      with ms Inr assms show ?thesis
        by (auto simp: Walk_single [OF Inr] split: prod.splits option.splits
              dest: OnFound_stdout)
    next
      case (Cons c' cs')
      with ms have "1 < length (matching E req)" by simp
      from Walk_ambiguous [OF Inr this] assms show ?thesis by simp
    qed
  qed
qed

lemma stop_loop_stdout:
  "stop_loop env t w args = (res, w') \<Longrightarrow>
   \<exists>rs. subseq rs args \<and> stdout w' = stdout w @ map (\<lambda>r. r @ newline) rs"
proof (induction args arbitrary: w)
  case Nil
  then show ?case by simp
next
  case (Cons req args)
  obtain r1 w1 where step: "Walk env (OnFound env t) w req = (r1, w1)"
    by (cases "Walk env (OnFound env t) w req")
  have "\<exists>rs1. subseq rs1 [req] \<and> stdout w1 = stdout w @ map (\<lambda>r. r @ newline) rs1"
  proof (cases "stdout w1 = stdout w")
    case True
    then have "subseq [] [req] \<and> stdout w1 = stdout w @ map (\<lambda>r. r @ newline) []"
      by simp
    then show ?thesis by blast
  next
    case False
    with Walk_stdout [OF step]
    have "subseq [req] [req] \<and> stdout w1 = stdout w @ map (\<lambda>r. r @ newline) [req]"
      by simp
    then show ?thesis by blast
  qed
  then obtain rs1 where
    rs1: "subseq rs1 [req]" "stdout w1 = stdout w @ map (\<lambda>r. r @ newline) rs1"
    by blast
  show ?case
  proof (cases "\<exists>n. r1 = Inr n \<and> n \<noteq> 0")
    case True
    with Cons.prems step have "stop_loop env t w1 args = (res, w')" by auto
    from Cons.IH [OF this] obtain rs2 where
      rs2: "subseq rs2 args" "stdout w' = stdout w1 @ map (\<lambda>r. r @ newline) rs2"
      by blast
    from rs1(1) rs2(1) have "subseq (rs1 @ rs2) ([req] @ args)"
      by (rule list_emb_append_mono)
    with rs1 rs2 have "subseq (rs1 @ rs2) (req # args) \<and>
        stdout w' = stdout w @ map (\<lambda>r. r @ newline) (rs1 @ rs2)"
      by simp
    then show ?thesis by blast
  next
    case False
    with Cons.prems step have "w' = w1" by (cases r1) (auto split: if_splits)
    moreover from rs1(1) have "subseq (rs1 @ []) ([req] @ args)"
      by (rule list_emb_append_mono) simp
    ultimately have "subseq rs1 (req # args) \<and>
        stdout w' = stdout w @ map (\<lambda>r. r @ newline) rs1"
      using rs1 by simp
    then show ?thesis by blast
  qed
qed

text \<open>
  C10. Take a request that resolves to one container, after the arguments before it
  went through. If the stop succeeds, the command hands stdout the request string as
  the user wrote it, followed by a newline, after everything written before, and
  nothing goes to stderr. If the container has vanished, stdout is left as it was, the
  line \<open>No such container: \<close> with the request goes to stderr, and the command still
  returns nil. Over a whole command, stdout receives lines of requests only, in the
  order of the arguments, at most one for each argument.
\<close>

theorem stdout_lines_are_requests:
  assumes "stopAction env cmd w pre = (None, w1)"
    and "stop_timeout cmd = Inr t"
    and "list_entities env (runtime w1) = Inr E"
    and "matching E req = [c]"
  shows "(\<forall>r'. Stop env (runtime w1) c t = (None, r') \<longrightarrow>
            stopAction env cmd w (pre @ [req]) =
              (stdout_write env (stdout w1) (req @ newline),
               w1\<lparr>runtime := r', stop_calls := stop_calls w1 @ [(c, t)],
                  stdout := stdout w1 @ [req @ newline]\<rparr>))
       \<and> (\<forall>err r'. Stop env (runtime w1) c t = (Some err, r') \<longrightarrow> IsNotFound err \<longrightarrow>
            stopAction env cmd w (pre @ [req]) =
              (None,
               w1\<lparr>runtime := r', stop_calls := stop_calls w1 @ [(c, t)],
                  stderr := stderr w1 @ [''No such container: '' @ req @ newline]\<rparr>))
       \<and> (\<forall>args. \<exists>rs. subseq rs args \<and>
            stdout (snd (stopAction env cmd w args)) =
              stdout w @ map (\<lambda>r. r @ newline) rs)"
proof -
  from stopAction_ok [OF assms(1)] assms(2) have
    t: "stop_loop env t w pre = (None, w1)"
    and all: "\<And>args'. stopAction env cmd w args' = stop_loop env t w args'"
    by auto
  let ?f = "\<lparr>Container = c, Req = req, MatchCount = 1\<rparr>"
  have a: "stopAction env cmd w (pre @ [req]) =
              (stdout_write env (stdout w1) (req @ newline),
               w1\<lparr>runtime := r', stop_calls := stop_calls w1 @ [(c, t)],
                  stdout := stdout w1 @ [req @ newline]\<rparr>)"
    if s: "Stop env (runtime w1) c t = (None, r')" for r'
  proof -
    have onf: "OnFound env t w1 ?f =
      (stdout_write env (stdout w1) (req @ newline),
       w1\<lparr>runtime := r', stop_calls := stop_calls w1 @ [(c, t)],
          stdout := stdout w1 @ [req @ newline]\<rparr>)"
      using OnFound_stopped [of ?f env w1 t r'] s by simp
    show ?thesis
      by (cases "stdout_write env (stdout w1) (req @ newline)")
        (simp_all add: all stop_loop_append t Walk_single [OF assms(3,4)] onf)
  qed
  have b: "stopAction env cmd w (pre @ [req]) =
              (None,
               w1\<lparr>runtime := r', stop_calls := stop_calls w1 @ [(c, t)],
                  stderr := stderr w1 @ [''No such container: '' @ req @ newline]\<rparr>)"
    if s: "Stop env (runtime w1) c t = (Some err, r')" and nf: "IsNotFound err" for err r'
  proof -
    have onf: "OnFound env t w1 ?f =
      (None, w1\<lparr>runtime := r', stop_calls := stop_calls w1 @ [(c, t)],
          stderr := stderr w1 @ [''No such container: '' @ req @ newline]\<rparr>)"
      using OnFound_vanished [of ?f env w1 t err r'] s nf by simp
    show ?thesis
      by (simp add: all stop_loop_append t Walk_single [OF assms(3,4)] onf)
  qed
  have c: "\<exists>rs. subseq rs args \<and>
      stdout (snd (stopAction env cmd w args)) = stdout w @ map (\<lambda>r. r @ newline) rs"
    for args
    using stop_loop_stdout [of env t w args] all
    by (cases "stop_loop env t w args") simp
  from a b c show ?thesis by blast
qed

text \<open>
  The theorem at two runs after \<open>abd\<close> was stopped. In the first the name \<open>web\<close>
  resolves to the container with ID \<open>abc\<close>, which is stopped: stdout receives the line
  \<open>web\<close>, not the ID. In the second \<open>abc\<close> has vanished by the time it is stopped:
  stdout keeps the line \<open>abd\<close> alone and stderr receives the message.
\<close>

theorem stdout_lines_are_requests_witness:
  "stopAction ex_env ex_cmd (ex_world [ex_abc, ex_abd]) [''abd''] =
     (None, \<lparr>runtime = [ex_abc], stdout = [''abd'' @ newline], stderr = [],
             stop_calls = [(ex_abd, None)]\<rparr>)
   \<and> matching [ex_abc] ''web'' = [ex_abc]
   \<and> Stop ex_env [ex_abc] ex_abc None = (None, [])
   \<and> stopAction ex_env ex_cmd (ex_world [ex_abc, ex_abd]) ([''abd''] @ [''web'']) =
       (None, \<lparr>runtime = [], stdout = [''abd'' @ newline, ''web'' @ newline], stderr = [],
               stop_calls = [(ex_abd, None), (ex_abc, None)]\<rparr>)
   \<and> stopAction ex_racy_env ex_cmd (ex_world [ex_abc, ex_abd]) [''abd''] =
     (None, \<lparr>runtime = [ex_abc], stdout = [''abd'' @ newline], stderr = [],
             stop_calls = [(ex_abd, None)]\<rparr>)
   \<and> Stop ex_racy_env [ex_abc] ex_abc None = (Some (Error True ''container not found''), [])
   \<and> IsNotFound (Error True ''container not found'')
   \<and> stopAction ex_racy_env ex_cmd (ex_world [ex_abc, ex_abd]) ([''abd''] @ [''web'']) =
       (None, \<lparr>runtime = [], stdout = [''abd'' @ newline],
               stderr = [''No such container: '' @ ''web'' @ newline],
               stop_calls = [(ex_abd, None), (ex_abc, None)]\<rparr>)"
proof -
  let ?w1 = "\<lparr>runtime = [ex_abc], stdout = [''abd'' @ newline], stderr = [],
             stop_calls = [(ex_abd, None)]\<rparr>"
  have h2: "stop_timeout ex_cmd = Inr None"
    by (simp add: ex_defs ex_racy_env_def)
  have h4: "matching [ex_abc] ''web'' = [ex_abc]"
    by (simp add: ex_defs ex_racy_env_def)
  have g1: "stopAction ex_env ex_cmd (ex_world [ex_abc, ex_abd]) [''abd''] = (None, ?w1)"
    by (simp add: ex_defs ex_racy_env_def)
  have g3: "list_entities ex_env (runtime ?w1) = Inr [ex_abc]"
    by (simp add: ex_env_def)
  have g5: "Stop ex_env (runtime ?w1) ex_abc None = (None, [])"
    by (simp add: ex_defs ex_racy_env_def)
  from stdout_lines_are_requests [OF g1 h2 g3 h4, THEN conjunct1, rule_format, OF g5]
  have first: "stopAction ex_env ex_cmd (ex_world [ex_abc, ex_abd]) ([''abd''] @ [''web'']) =
       (None, \<lparr>runtime = [], stdout = [''abd'' @ newline, ''web'' @ newline], stderr = [],
               stop_calls = [(ex_abd, None), (ex_abc, None)]\<rparr>)"
    by (simp add: ex_env_def)
  have h1: "stopAction ex_racy_env ex_cmd (ex_world [ex_abc, ex_abd]) [''abd''] = (None, ?w1)"
    by (simp add: ex_defs ex_racy_env_def)
  have h3: "list_entities ex_racy_env (runtime ?w1) = Inr [ex_abc]"
    by (simp add: ex_racy_env_def)
  have h5: "Stop ex_racy_env (runtime ?w1) ex_abc None =
      (Some (Error True ''container not found''), [])"
    by (simp add: ex_defs ex_racy_env_def)
  have h6: "IsNotFound (Error True ''container not found'')"
    by (simp add: IsNotFound_def)
  from stdout_lines_are_requests [OF h1 h2 h3 h4, THEN conjunct2, THEN conjunct1,
      rule_format, OF h5 h6]
  have second:
    "stopAction ex_racy_env ex_cmd (ex_world [ex_abc, ex_abd]) ([''abd''] @ [''web'']) =
       (None, \<lparr>runtime = [], stdout = [''abd'' @ newline],
               stderr = [''No such container: '' @ ''web'' @ newline],
               stop_calls = [(ex_abd, None), (ex_abc, None)]\<rparr>)"
    by simp
  from g1 h4 g5 first h1 h5 h6 second show ?thesis by simp
qed

section \<open>Pulling with and without verification\<close>

lemma pull_verified:
  "verification_positive env doc b r \<Longrightarrow>
   pull env doc gs r (Some b) =
     materialize env (gs\<lparr>trace := trace gs @ [PolicyEvaluated r, VerifyStarted b r]\<rparr>) r"
  by (auto simp: pull_def verification_positive_def Let_def split: option.splits)

lemma pull_not_verified:
  "\<not> verification_positive env doc b r \<Longrightarrow>
   (\<exists>e. fst (pull env doc gs r (Some b)) = Inl e) \<and>
   local_images (snd (pull env doc gs r (Some b))) = local_images gs"
  by (auto simp: pull_def verification_positive_def Let_def
        split: option.splits verify_outcome.splits)

text \<open>
  C6. For every pull with a verification directive: when verification returns a
  positive result, the pull succeeds and makes the pulled content available locally;
  when it does not (a trust denial, a tool error, or no policy for the image's scope),
  the pull returns an error and the local images are left as they were. So an image that
  was not available before the pull is available after it exactly when verification
  returned a positive result.
\<close>

theorem fail_closed_pull:
  "(verification_positive env doc b r \<longrightarrow>
       fst (pull env doc gs r (Some b)) = Inr (registry_pull env r) \<and>
       local_images (snd (pull env doc gs r (Some b))) =
         (local_images gs)(r \<mapsto> registry_pull env r))
   \<and> (\<not> verification_positive env doc b r \<longrightarrow>
       (\<exists>e. fst (pull env doc gs r (Some b)) = Inl e) \<and>
       local_images (snd (pull env doc gs r (Some b))) = local_images gs)
   \<and> (local_images gs r = None \<longrightarrow>
       (local_images (snd (pull env doc gs r (Some b))) r \<noteq> None
          \<longleftrightarrow> verification_positive env doc b r))"
proof (intro conjI impI)
  assume pos: "verification_positive env doc b r"
  show "fst (pull env doc gs r (Some b)) = Inr (registry_pull env r)"
    by (simp add: pull_verified [OF pos] materialize_def Let_def)
  show "local_images (snd (pull env doc gs r (Some b))) =
      (local_images gs)(r \<mapsto> registry_pull env r)"
    by (simp add: pull_verified [OF pos] materialize_def Let_def)
next
  assume neg: "\<not> verification_positive env doc b r"
  from pull_not_verified [OF neg]
  show "\<exists>e. fst (pull env doc gs r (Some b)) = Inl e"
    and "local_images (snd (pull env doc gs r (Some b))) = local_images gs"
    by blast+
next
  assume absent: "local_images gs r = None"
  show "local_images (snd (pull env doc gs r (Some b))) r \<noteq> None
          \<longleftrightarrow> verification_positive env doc b r"
  proof (cases "verification_positive env doc b r")
    case True
    then show ?thesis by (simp add: pull_verified materialize_def Let_def)
  next
    case False
    with pull_not_verified [OF False, of gs] absent show ?thesis by simp
  qed
qed

theorem fail_closed_pull_witness:
  "verification_positive ex_trust_env ex_doc ex_verify_key ex_image
   \<and> fst (pull ex_trust_env ex_doc gate_init ex_image (Some ex_verify_key)) = Inr ''layers''
   \<and> local_images (snd (pull ex_trust_env ex_doc gate_init ex_image (Some ex_verify_key)))
        ex_image = Some ''layers''
   \<and> \<not> verification_positive ex_trust_env ex_doc ex_verify_other ex_image
   \<and> fst (pull ex_trust_env ex_doc gate_init ex_image (Some ex_verify_other)) =
        Inl (TrustDenied ''no matching signatures'')
   \<and> local_images gate_init ex_image = None
   \<and> local_images (snd (pull ex_trust_env ex_doc gate_init ex_image (Some ex_verify_other)))
        ex_image = None"
proof -
  have pos: "verification_positive ex_trust_env ex_doc ex_verify_key ex_image"
    by (simp add: ex_image_def ex_doc_def ex_trust_env_def ex_verify_key_def ex_verify_other_def
          gate_init_def pull_def materialize_def verification_positive_def resolve_policy_def
          scope_matches_def scope_of_def)
  have neg: "\<not> verification_positive ex_trust_env ex_doc ex_verify_other ex_image"
    by (simp add: ex_image_def ex_doc_def ex_trust_env_def ex_verify_key_def ex_verify_other_def
          gate_init_def pull_def materialize_def verification_positive_def resolve_policy_def
          scope_matches_def scope_of_def)
  have absent: "local_images gate_init ex_image = None"
    by (simp add: gate_init_def)
  have pull_ex: "registry_pull ex_trust_env ex_image = ''layers''"
    by (simp add: ex_trust_env_def)
  have err: "fst (pull ex_trust_env ex_doc gate_init ex_image (Some ex_verify_other)) =
        Inl (TrustDenied ''no matching signatures'')"
    by (simp add: ex_image_def ex_doc_def ex_trust_env_def ex_verify_key_def ex_verify_other_def
          gate_init_def pull_def materialize_def verification_positive_def resolve_policy_def
          scope_matches_def scope_of_def)
  note inst1 = fail_closed_pull
    [of ex_trust_env ex_doc ex_verify_key ex_image gate_init]
  note inst2 = fail_closed_pull
    [of ex_trust_env ex_doc ex_verify_other ex_image gate_init]
  from inst1 pos pull_ex
  have a: "fst (pull ex_trust_env ex_doc gate_init ex_image (Some ex_verify_key)) = Inr ''layers''"
    and b: "local_images (snd (pull ex_trust_env ex_doc gate_init ex_image (Some ex_verify_key)))
        ex_image = Some ''layers''"
    by simp_all
  from inst2 neg absent
  have c: "local_images (snd (pull ex_trust_env ex_doc gate_init ex_image (Some ex_verify_other)))
        ex_image = None"
    by simp
  from pos a b neg err absent c show ?thesis by blast
qed

lemma verification_events_push:
  "filter is_verification_event (trace (snd (push env gs r c sign))) =
     filter is_verification_event (trace gs)"
  by (simp add: push_def Let_def split: option.splits sum.splits)

lemma verification_events_pull:
  "length (filter is_verification_event (trace (snd (pull env doc gs r verify)))) =
     length (filter is_verification_event (trace gs)) +
       (case verify of None \<Rightarrow> 0
        | Some b \<Rightarrow> (case resolve_policy doc r of None \<Rightarrow> 1 | Some p \<Rightarrow> 2))"
  by (simp add: pull_def materialize_def Let_def split: option.splits verify_outcome.splits)

lemma run_without_verification:
  "list_all (\<lambda>x. \<not> requests_verification x) xs \<Longrightarrow>
   length (filter is_verification_event (trace (run_transfers env doc gs xs))) =
     length (filter is_verification_event (trace gs))"
proof (induction xs arbitrary: gs)
  case Nil
  then show ?case by simp
next
  case (Cons x xs)
  then have rest: "list_all (\<lambda>x. \<not> requests_verification x) xs"
    and x: "\<not> requests_verification x"
    by simp_all
  have "length (filter is_verification_event (trace (run_transfer env doc gs x))) =
      length (filter is_verification_event (trace gs))"
  proof (cases x)
    case (Push r c sign)
    then show ?thesis by (simp add: verification_events_push)
  next
    case (Pull r verify)
    with x have "verify = None" by (cases verify) simp_all
    with Pull show ?thesis by (simp add: verification_events_pull)
  qed
  with Cons.IH [OF rest, of "run_transfer env doc gs x"] show ?case by simp
qed

text \<open>
  C7. For every pull without a verification directive, the gate only materializes the
  pulled content: the result does not depend on the trust policy document nor on what
  the backend would verify, and the pull adds no policy evaluation and no verification
  step to the trace. Over a run of transfers none of which asks for verification, the
  number of such steps stays what it was.
\<close>

theorem unverified_pull_bypasses_policy:
  "pull env doc gs r None =
     (Inr (registry_pull env r),
      gs\<lparr>local_images := (local_images gs)(r \<mapsto> registry_pull env r),
         trace := trace gs @ [Materialized r]\<rparr>)
   \<and> pull env doc gs r None = pull (env\<lparr>Verify := v\<rparr>) doc' gs r None
   \<and> filter is_verification_event (trace (snd (pull env doc gs r None))) =
       filter is_verification_event (trace gs)
   \<and> (list_all (\<lambda>x. \<not> requests_verification x) xs \<longrightarrow>
        length (filter is_verification_event (trace (run_transfers env doc gs xs))) =
          length (filter is_verification_event (trace gs)))"
  by (simp add: pull_def materialize_def Let_def run_without_verification)

theorem unverified_pull_bypasses_policy_witness:
  "list_all (\<lambda>x. \<not> requests_verification x)
     [Push ex_image ''layers'' (Some ex_sign_key), Pull ex_image None]
   \<and> length (filter is_verification_event (trace gate_init)) = 0
   \<and> length (filter is_verification_event
        (trace (run_transfers ex_trust_env ex_doc gate_init
           [Push ex_image ''layers'' (Some ex_sign_key), Pull ex_image None]))) = 0
   \<and> trace (snd (pull ex_trust_env ex_doc gate_init ex_image None)) = [Materialized ex_image]"
proof -
  have h: "list_all (\<lambda>x. \<not> requests_verification x)
     [Push ex_image ''layers'' (Some ex_sign_key), Pull ex_image None]"
    by simp
  have z: "length (filter is_verification_event (trace gate_init)) = 0"
    by (simp add: gate_init_def)
  note inst = unverified_pull_bypasses_policy
    [of ex_trust_env ex_doc gate_init ex_image "Verify ex_trust_env" ex_doc
       "[Push ex_image ''layers'' (Some ex_sign_key), Pull ex_image None]"]
  from inst h z
  have a: "length (filter is_verification_event
        (trace (run_transfers ex_trust_env ex_doc gate_init
           [Push ex_image ''layers'' (Some ex_sign_key), Pull ex_image None]))) = 0"
    by simp
  from inst have b: "trace (snd (pull ex_trust_env ex_doc gate_init ex_image None)) =
      [Materialized ex_image]"
    by (simp add: gate_init_def)
  from h z a b show ?thesis by blast
qed

section \<open>Pushing with a signature\<close>

lemma signs_follow_pushes_mono:
  "signs_follow_pushes S es \<Longrightarrow> S \<subseteq> S' \<Longrightarrow> signs_follow_pushes S' es"
proof (induction S es arbitrary: S' rule: signs_follow_pushes.induct)
  case (2 seen r d es)
  from "2.prems" have "signs_follow_pushes (insert d seen) es"
    and "insert d seen \<subseteq> insert d S'"
    by auto
  from "2.IH" [OF this] show ?case by simp
next
  case (3 seen b d es)
  then show ?case by auto
qed simp_all

lemma signs_follow_pushes_append:
  "signs_follow_pushes S (xs @ ys) \<longleftrightarrow>
     signs_follow_pushes S xs \<and> signs_follow_pushes (S \<union> pushed_digests xs) ys"
  by (induction S xs rule: signs_follow_pushes.induct) simp_all

lemma push_keeps_order:
  "signs_follow_pushes S (trace gs) \<Longrightarrow> signs_follow_pushes S (trace (snd (push env gs r c sign)))"
  by (simp add: push_def Let_def signs_follow_pushes_append split: option.splits sum.splits)

lemma pull_keeps_order:
  "signs_follow_pushes S (trace gs) \<Longrightarrow>
   signs_follow_pushes S (trace (snd (pull env doc gs r verify)))"
  by (simp add: pull_def materialize_def Let_def signs_follow_pushes_append
        split: option.splits verify_outcome.splits)

lemma run_keeps_order:
  "signs_follow_pushes S (trace gs) \<Longrightarrow>
   signs_follow_pushes S (trace (run_transfers env doc gs xs))"
proof (induction xs arbitrary: gs)
  case Nil
  then show ?case by simp
next
  case (Cons x xs)
  from Cons.prems have "signs_follow_pushes S (trace (run_transfer env doc gs x))"
    by (cases x) (simp_all add: push_keeps_order pull_keeps_order)
  from Cons.IH [OF this] show ?case by simp
qed

text \<open>
  C8. For every push with a signing directive, the steps added to the trace are the
  push, then the start of signing for the digest that the push produced, then the
  publication of the attestation if signing succeeded. If signing fails, the push as a
  whole returns the error, the pushed content stays in the registry and nothing is
  published. Over any run of transfers from the initial state, every signing step comes
  after a push that produced the digest it signs.
\<close>

theorem sign_follows_push:
  "trace (snd (push env gs r c (Some b))) =
     trace gs @ [Pushed r (registry_push env r c), SignStarted b (registry_push env r c)] @
       (case Sign env b (registry_push env r c) of
          Inl diag \<Rightarrow> []
        | Inr att \<Rightarrow> [Published (registry_push env r c)])
   \<and> (\<forall>diag. Sign env b (registry_push env r c) = Inl diag \<longrightarrow>
        fst (push env gs r c (Some b)) = Inl (AttestationToolError diag) \<and>
        pushed (snd (push env gs r c (Some b))) = pushed gs @ [(r, registry_push env r c)] \<and>
        published (snd (push env gs r c (Some b))) = published gs)
   \<and> signs_follow_pushes {} (trace (run_transfers env doc gate_init xs))"
proof (intro conjI allI impI)
  show "trace (snd (push env gs r c (Some b))) =
     trace gs @ [Pushed r (registry_push env r c), SignStarted b (registry_push env r c)] @
       (case Sign env b (registry_push env r c) of
          Inl diag \<Rightarrow> []
        | Inr att \<Rightarrow> [Published (registry_push env r c)])"
    by (simp add: push_def Let_def split: sum.splits)
next
  fix diag
  assume "Sign env b (registry_push env r c) = Inl diag"
  then show "fst (push env gs r c (Some b)) = Inl (AttestationToolError diag)"
    and "pushed (snd (push env gs r c (Some b))) = pushed gs @ [(r, registry_push env r c)]"
    and "published (snd (push env gs r c (Some b))) = published gs"
    by (simp_all add: push_def Let_def)
next
  have "signs_follow_pushes {} (trace gate_init)"
    by (simp add: gate_init_def)
  then show "signs_follow_pushes {} (trace (run_transfers env doc gate_init xs))"
    by (rule run_keeps_order)
qed

theorem sign_follows_push_witness:
  "Sign ex_trust_env ex_sign_bad (registry_push ex_trust_env ex_image ''layers'') =
     Inl ''signing failed''
   \<and> fst (push ex_trust_env gate_init ex_image ''layers'' (Some ex_sign_bad)) =
       Inl (AttestationToolError ''signing failed'')
   \<and> pushed (snd (push ex_trust_env gate_init ex_image ''layers'' (Some ex_sign_bad))) =
       [(ex_image, ''sha256:layers'')]
   \<and> published (snd (push ex_trust_env gate_init ex_image ''layers'' (Some ex_sign_bad))) = []
   \<and> trace (snd (push ex_trust_env gate_init ex_image ''layers'' (Some ex_sign_key))) =
       [Pushed ex_image ''sha256:layers'', SignStarted ex_sign_key ''sha256:layers'',
        Published ''sha256:layers'']"
proof -
  have d: "registry_push ex_trust_env ex_image ''layers'' = ''sha256:layers''"
    by (simp add: ex_trust_env_def)
  have bad: "Sign ex_trust_env ex_sign_bad (registry_push ex_trust_env ex_image ''layers'') =
     Inl ''signing failed''"
    by (simp add: ex_trust_env_def ex_sign_bad_def)
  have good: "Sign ex_trust_env ex_sign_key (registry_push ex_trust_env ex_image ''layers'') =
     Inr ''sig:sha256:layers''"
    by (simp add: ex_trust_env_def ex_sign_key_def)
  have init: "pushed gate_init = []" "published gate_init = []" "trace gate_init = []"
    by (simp_all add: gate_init_def)
  note inst1 = sign_follows_push
    [of ex_trust_env gate_init ex_image "''layers''" ex_sign_bad ex_doc "[]"]
  note inst2 = sign_follows_push
    [of ex_trust_env gate_init ex_image "''layers''" ex_sign_key ex_doc "[]"]
  from inst1 bad
  have a: "fst (push ex_trust_env gate_init ex_image ''layers'' (Some ex_sign_bad)) =
       Inl (AttestationToolError ''signing failed'')"
    and b: "pushed (snd (push ex_trust_env gate_init ex_image ''layers'' (Some ex_sign_bad))) =
       [(ex_image, ''sha256:layers'')]"
    and c: "published (snd (push ex_trust_env gate_init ex_image ''layers'' (Some ex_sign_bad))) = []"
    by (simp_all add: init d)
  from inst2 good
  have e: "trace (snd (push ex_trust_env gate_init ex_image ''layers'' (Some ex_sign_key))) =
       [Pushed ex_image ''sha256:layers'', SignStarted ex_sign_key ''sha256:layers'',
        Published ''sha256:layers'']"
    by (simp add: init d)
  from bad a b c e show ?thesis by blast
qed

section \<open>Escalation of a stop\<close>

lemma issued_after_force: "issued (after_force c os) = issued c"
  by (induction c os rule: after_force.induct) (simp_all add: finish_def enter_def)

lemma issued_escalate:
  "issued (escalate run c os) = issued c @ [(Forceful, elapsed c)]"
  by (simp add: escalate_def Let_def issued_after_force finish_def enter_def
        split: reply.splits)

lemma issued_await:
  "elapsed c \<le> T \<Longrightarrow>
   issued (await T run c os) =
     issued c @ (if take (T - elapsed c) os = replicate (T - elapsed c) Tick
                 then [(Forceful, T)] else [])"
proof (induction os arbitrary: c)
  case Nil
  then show ?case by (auto simp: issued_escalate)
next
  case (Cons ob os)
  show ?case
  proof (cases "T \<le> elapsed c")
    case True
    with Cons.prems have "elapsed c = T" by simp
    then show ?thesis by (simp add: issued_escalate)
  next
    case False
    then obtain k where k: "T - elapsed c = Suc k" "T - (elapsed c + 1) = k"
      by (cases "T - elapsed c") auto
    from False have le: "elapsed (c\<lparr>elapsed := elapsed c + 1\<rparr>) \<le> T" by simp
    show ?thesis
    proof (cases ob)
      case Tick
      with False Cons.IH [OF le] k show ?thesis by simp
    qed (use False k in \<open>simp_all add: finish_def enter_def\<close>)
  qed
qed

lemma issued_controller_Stop:
  "issued (controller_Stop d spec run) =
     (if terminal_at_request run then []
      else (Graceful, 0) #
        (if graceful_reply run = Accepted \<and>
            take (effective_timeout d spec) (observations run) =
              replicate (effective_timeout d spec) Tick
         then [(Forceful, effective_timeout d spec)] else []))"
  by (cases "graceful_reply run")
    (simp_all add: controller_Stop_def Let_def finish_def enter_def issued_await)

text \<open>
  C9. For every stop in which the graceful signal was accepted and the entity is still
  non-terminal during the whole timeout, exactly one forceful signal is issued, at the
  time the timeout elapses. In every stop at most one forceful signal is issued, and one
  is issued only at or after the timeout, when the entity was non-terminal for all of
  it.
\<close>

theorem forceful_signal_once_after_timeout:
  "(\<not> terminal_at_request run \<longrightarrow> graceful_reply run = Accepted \<longrightarrow>
      take (effective_timeout d spec) (observations run) =
        replicate (effective_timeout d spec) Tick \<longrightarrow>
      forceful_signals (controller_Stop d spec run) =
        [(Forceful, effective_timeout d spec)])
   \<and> length (forceful_signals (controller_Stop d spec run)) \<le> 1
   \<and> (\<forall>(s, t) \<in> set (issued (controller_Stop d spec run)).
        s = Forceful \<longrightarrow>
          effective_timeout d spec \<le> t \<and>
          take (effective_timeout d spec) (observations run) =
            replicate (effective_timeout d spec) Tick)"
  by (simp add: forceful_signals_def issued_controller_Stop)

theorem forceful_signal_once_after_timeout_witness:
  "\<not> terminal_at_request ex_slow_exit
   \<and> graceful_reply ex_slow_exit = Accepted
   \<and> effective_timeout 10 ex_spec = 2
   \<and> take 2 (observations ex_slow_exit) = replicate 2 Tick
   \<and> forceful_signals (controller_Stop 10 ex_spec ex_slow_exit) = [(Forceful, 2)]"
proof -
  have h1: "\<not> terminal_at_request ex_slow_exit" "graceful_reply ex_slow_exit = Accepted"
    by (simp_all add: ex_slow_exit_def)
  have h2: "effective_timeout 10 ex_spec = 2"
    by (simp add: effective_timeout_def ex_spec_def)
  have h3: "take 2 (observations ex_slow_exit) = replicate 2 Tick"
    by (simp add: ex_slow_exit_def numeral_2_eq_2)
  from forceful_signal_once_after_timeout [of ex_slow_exit 10 ex_spec] h1 h2 h3
  have "forceful_signals (controller_Stop 10 ex_spec ex_slow_exit) = [(Forceful, 2)]"
    by simp
  with h1 h2 h3 show ?thesis by blast
qed

end
